theory Spec2Isabelle
  imports Main "HOL-Library.Word"
begin

section \<open>The monitoring page of SmartStore: strings and JSON values\<close>

text \<open>
  The component under study is the script of the real-time monitoring page
  (\<^verbatim>\<open>connectSSE\<close>, \<^verbatim>\<open>addMetric\<close>, \<^verbatim>\<open>disconnect\<close>) together with
  \<^verbatim>\<open>api.createEventSource\<close> and \<^verbatim>\<open>authStore.getToken\<close> of \<^verbatim>\<open>lib/api.js\<close>.

  A JavaScript string is a sequence of 16-bit code units. A literal of the source is
  written \<open>str ''...''\<close>.
\<close>

type_synonym js_string = "16 word list"

definition cu :: "char \<Rightarrow> 16 word" where
  "cu c = of_char c"

definition str :: "string \<Rightarrow> js_string" where
  "str s = map cu s"

text \<open>
  The values \<^verbatim>\<open>JSON.parse\<close> can return. A number is kept as the decimal the text
  denotes, \<open>JNum m e\<close> standing for \<open>m * 10 ^ e\<close>; the rounding to a binary double is
  not modelled. An object keeps its members in the order of the text, duplicates
  included; the last member of a name is the property (see \<open>own_props\<close>).
\<close>

datatype json =
    JNull
  | JBool bool
  | JNum int int
  | JStr js_string
  | JArr "json list"
  | JObj "(js_string \<times> json) list"

datatype js_error = SyntaxError | TypeError

subsection \<open>\<^verbatim>\<open>JSON.parse\<close>\<close>

text \<open>
  \<^verbatim>\<open>JSON.parse\<close> is the platform's, not the repository's. It is modelled after the JSON
  grammar (ECMA-404): white space is space, tab, line feed and carriage return; a
  string may not hold an unescaped code unit below 0x20; a number has no leading zero,
  no leading plus sign and digits on both sides of a decimal point. Text that does not
  derive from the grammar, or that has anything but white space after the value, makes
  \<^verbatim>\<open>JSON.parse\<close> throw a SyntaxError.
\<close>

definition is_ws :: "16 word \<Rightarrow> bool" where
  "is_ws c = (c = 0x20 \<or> c = 0x09 \<or> c = 0x0A \<or> c = 0x0D)"

definition is_digit :: "16 word \<Rightarrow> bool" where
  "is_digit c = (0x30 \<le> c \<and> c \<le> 0x39)"

definition skip_ws :: "js_string \<Rightarrow> js_string" where
  "skip_ws cs = dropWhile is_ws cs"

definition digits_val :: "js_string \<Rightarrow> nat" where
  "digits_val ds = foldl (\<lambda>a c. 10 * a + (unat c - 48)) 0 ds"

definition hex_val :: "16 word \<Rightarrow> nat option" where
  "hex_val c =
     (if 0x30 \<le> c \<and> c \<le> 0x39 then Some (unat c - 0x30)
      else if 0x41 \<le> c \<and> c \<le> 0x46 then Some (unat c - 0x41 + 10)
      else if 0x61 \<le> c \<and> c \<le> 0x66 then Some (unat c - 0x61 + 10)
      else None)"

definition hex4 :: "16 word \<Rightarrow> 16 word \<Rightarrow> 16 word \<Rightarrow> 16 word \<Rightarrow> 16 word option" where
  "hex4 a b c d =
     (case (hex_val a, hex_val b, hex_val c, hex_val d) of
        (Some x, Some y, Some z, Some w) \<Rightarrow> Some (of_nat (((x * 16 + y) * 16 + z) * 16 + w))
      | _ \<Rightarrow> None)"

text \<open>The one-letter escapes: quotation mark, reverse solidus, solidus, b, f, n, r, t.\<close>

definition unescape :: "16 word \<Rightarrow> 16 word option" where
  "unescape e =
     (if e = 0x22 then Some 0x22
      else if e = 0x5C then Some 0x5C
      else if e = cu CHR ''/'' then Some 0x2F
      else if e = cu CHR ''b'' then Some 0x08
      else if e = cu CHR ''f'' then Some 0x0C
      else if e = cu CHR ''n'' then Some 0x0A
      else if e = cu CHR ''r'' then Some 0x0D
      else if e = cu CHR ''t'' then Some 0x09
      else None)"

definition consc :: "16 word \<Rightarrow> (js_string \<times> js_string) option \<Rightarrow> (js_string \<times> js_string) option" where
  "consc c r = (case r of None \<Rightarrow> None | Some (s, rest) \<Rightarrow> Some (c # s, rest))"

text \<open>
  \<open>lex_string\<close> reads the characters of a string after its opening quotation mark
  (0x22) and returns them with the text after the closing one; 0x5C is the reverse
  solidus.
\<close>

fun lex_string :: "js_string \<Rightarrow> (js_string \<times> js_string) option" where
  "lex_string [] = None"
| "lex_string (c # cs) =
     (if c = 0x22 then Some ([], cs)
      else if c = 0x5C then
        (case cs of
           [] \<Rightarrow> None
         | e # r \<Rightarrow>
             if e = cu CHR ''u'' then
               (case r of
                  h1 # h2 # h3 # h4 # r' \<Rightarrow>
                    (case hex4 h1 h2 h3 h4 of
                       None \<Rightarrow> None
                     | Some u \<Rightarrow> consc u (lex_string r'))
                | _ \<Rightarrow> None)
             else
               (case unescape e of
                  None \<Rightarrow> None
                | Some x \<Rightarrow> consc x (lex_string r)))
      else if c < 0x20 then None
      else consc c (lex_string cs))"

definition lex_digits :: "js_string \<Rightarrow> (js_string \<times> js_string) option" where
  "lex_digits cs =
     (let ds = takeWhile is_digit cs
      in if ds = [] then None else Some (ds, dropWhile is_digit cs))"

definition lex_int :: "js_string \<Rightarrow> (js_string \<times> js_string) option" where
  "lex_int cs =
     (case cs of
        [] \<Rightarrow> None
      | c # r \<Rightarrow> if c = cu CHR ''0'' then Some ([c], r) else lex_digits cs)"

definition lex_frac :: "js_string \<Rightarrow> (js_string \<times> js_string) option" where
  "lex_frac cs =
     (case cs of
        [] \<Rightarrow> Some ([], cs)
      | c # r \<Rightarrow> if c = cu CHR ''.'' then lex_digits r else Some ([], cs))"

definition lex_exp :: "js_string \<Rightarrow> (int \<times> js_string) option" where
  "lex_exp cs =
     (case cs of
        [] \<Rightarrow> Some (0, cs)
      | c # r \<Rightarrow>
          if c = cu CHR ''e'' \<or> c = cu CHR ''E'' then
            (case r of
               [] \<Rightarrow> None
             | s # r' \<Rightarrow>
                 if s = cu CHR ''-'' then
                   (case lex_digits r' of
                      None \<Rightarrow> None
                    | Some (ds, rest) \<Rightarrow> Some (- int (digits_val ds), rest))
                 else if s = cu CHR ''+'' then
                   (case lex_digits r' of
                      None \<Rightarrow> None
                    | Some (ds, rest) \<Rightarrow> Some (int (digits_val ds), rest))
                 else
                   (case lex_digits r of
                      None \<Rightarrow> None
                    | Some (ds, rest) \<Rightarrow> Some (int (digits_val ds), rest)))
          else Some (0, cs))"

definition lex_number :: "js_string \<Rightarrow> (json \<times> js_string) option" where
  "lex_number cs =
     (let neg = (cs \<noteq> [] \<and> hd cs = cu CHR ''-'');
          cs1 = (if neg then tl cs else cs)
      in case lex_int cs1 of
           None \<Rightarrow> None
         | Some (ip, cs2) \<Rightarrow>
             (case lex_frac cs2 of
                None \<Rightarrow> None
              | Some (fp, cs3) \<Rightarrow>
                  (case lex_exp cs3 of
                     None \<Rightarrow> None
                   | Some (ex, cs4) \<Rightarrow>
                       (let m = int (digits_val (ip @ fp))
                        in Some (JNum (if neg then - m else m) (ex - int (length fp)), cs4)))))"

definition lex_literal :: "js_string \<Rightarrow> (json \<times> js_string) option" where
  "lex_literal cs =
     (if take 4 cs = str ''true'' then Some (JBool True, drop 4 cs)
      else if take 5 cs = str ''false'' then Some (JBool False, drop 5 cs)
      else if take 4 cs = str ''null'' then Some (JNull, drop 4 cs)
      else None)"

text \<open>
  The recursive descent over values, array elements and object members. The first
  argument bounds the number of nested calls; \<open>JSON_parse\<close> starts it above twice the
  length of the text, which is more than any text needs: every larger bound gives the
  same result (lemma \<open>JSON_parse_any_bound\<close> below).
\<close>

fun parse_value :: "nat \<Rightarrow> js_string \<Rightarrow> (json \<times> js_string) option"
  and parse_elements :: "nat \<Rightarrow> json list \<Rightarrow> js_string \<Rightarrow> (json \<times> js_string) option"
  and parse_members :: "nat \<Rightarrow> (js_string \<times> json) list \<Rightarrow> js_string \<Rightarrow> (json \<times> js_string) option"
where
  "parse_value 0 cs = None"
| "parse_value (Suc n) cs =
     (case skip_ws cs of
        [] \<Rightarrow> None
      | c # r \<Rightarrow>
          if c = cu CHR ''{'' then
            (case skip_ws r of
               [] \<Rightarrow> None
             | c2 # r2 \<Rightarrow>
                 if c2 = cu CHR ''}'' then Some (JObj [], r2)
                 else parse_members n [] (c2 # r2))
          else if c = cu CHR ''['' then
            (case skip_ws r of
               [] \<Rightarrow> None
             | c2 # r2 \<Rightarrow>
                 if c2 = cu CHR '']'' then Some (JArr [], r2)
                 else parse_elements n [] (c2 # r2))
          else if c = 0x22 then
            (case lex_string r of
               None \<Rightarrow> None
             | Some (s, rest) \<Rightarrow> Some (JStr s, rest))
          else if c = cu CHR ''-'' \<or> is_digit c then lex_number (c # r)
          else lex_literal (c # r))"
| "parse_elements 0 acc cs = None"
| "parse_elements (Suc n) acc cs =
     (case parse_value n cs of
        None \<Rightarrow> None
      | Some (v, rest) \<Rightarrow>
          (case skip_ws rest of
             [] \<Rightarrow> None
           | c # r \<Rightarrow>
               if c = cu CHR '','' then parse_elements n (acc @ [v]) r
               else if c = cu CHR '']'' then Some (JArr (acc @ [v]), r)
               else None))"
| "parse_members 0 acc cs = None"
| "parse_members (Suc n) acc cs =
     (case skip_ws cs of
        [] \<Rightarrow> None
      | c # r \<Rightarrow>
          if c = 0x22 then
            (case lex_string r of
               None \<Rightarrow> None
             | Some (k, rest) \<Rightarrow>
                 (case skip_ws rest of
                    [] \<Rightarrow> None
                  | c2 # r2 \<Rightarrow>
                      if c2 = cu CHR '':'' then
                        (case parse_value n r2 of
                           None \<Rightarrow> None
                         | Some (v, rest2) \<Rightarrow>
                             (case skip_ws rest2 of
                                [] \<Rightarrow> None
                              | c3 # r3 \<Rightarrow>
                                  if c3 = cu CHR '','' then parse_members n (acc @ [(k, v)]) r3
                                  else if c3 = cu CHR ''}'' then Some (JObj (acc @ [(k, v)]), r3)
                                  else None))
                      else None))
          else None)"

definition JSON_parse :: "js_string \<Rightarrow> js_error + json" where
  "JSON_parse text =
     (case parse_value (2 * length text + 2) text of
        None \<Rightarrow> Inl SyntaxError
      | Some (v, rest) \<Rightarrow> if skip_ws rest = [] then Inr v else Inl SyntaxError)"


subsection \<open>Property reads, truthiness, conversion to string, object spread\<close>

text \<open>
  \<open>own_props v\<close> is the own enumerable properties of \<open>v\<close>, which the spread
  \<^verbatim>\<open>{...stats, ...data}\<close> copies: the members of an object (the last one of a
  repeated name), the indexed elements of an array, the indexed code units of a
  string, and nothing for \<^verbatim>\<open>null\<close>, a boolean or a number.
\<close>

fun digit_list :: "nat \<Rightarrow> js_string" where
  "digit_list n = (if n < 10 then [of_nat (48 + n)] else digit_list (n div 10) @ [of_nat (48 + n mod 10)])"

declare digit_list.simps [simp del]

definition index_keys :: "nat \<Rightarrow> js_string list" where
  "index_keys n = map digit_list [0..<n]"

definition own_props :: "json \<Rightarrow> (js_string \<rightharpoonup> json)" where
  "own_props v =
     (case v of
        JObj kvs \<Rightarrow> map_of (rev kvs)
      | JArr vs \<Rightarrow> map_of (zip (index_keys (length vs)) vs)
      | JStr cs \<Rightarrow> map_of (zip (index_keys (length cs)) (map (\<lambda>c. JStr [c]) cs))
      | _ \<Rightarrow> Map.empty)"

text \<open>
  \<open>get_prop v k\<close> is the read \<^verbatim>\<open>v.k\<close> for the names the page reads (\<^verbatim>\<open>metric\<close>,
  \<^verbatim>\<open>value\<close>, \<^verbatim>\<open>cache_hit_rate\<close>), which no built-in prototype defines: a TypeError
  on \<^verbatim>\<open>null\<close>, the member of an object, and \<^verbatim>\<open>undefined\<close> (\<open>None\<close>) otherwise.
\<close>

definition get_prop :: "json \<Rightarrow> js_string \<Rightarrow> js_error + json option" where
  "get_prop v k =
     (case v of
        JNull \<Rightarrow> Inl TypeError
      | JObj kvs \<Rightarrow> Inr (map_of (rev kvs) k)
      | _ \<Rightarrow> Inr None)"

text \<open>
  Truthiness, \<open>None\<close> being \<^verbatim>\<open>undefined\<close>. A number is falsy when it is zero; a
  literal so small that a double rounds it to zero is outside the model.
\<close>

fun ToBoolean :: "json option \<Rightarrow> bool" where
  "ToBoolean None = False"
| "ToBoolean (Some JNull) = False"
| "ToBoolean (Some (JBool b)) = b"
| "ToBoolean (Some (JNum m e)) = (m \<noteq> 0)"
| "ToBoolean (Some (JStr cs)) = (cs \<noteq> [])"
| "ToBoolean (Some (JArr vs)) = True"
| "ToBoolean (Some (JObj kvs)) = True"

text \<open>
  A number is printed as its exact decimal expansion. This is what JavaScript prints
  for an integer below \<open>10 ^ 21\<close> and for a decimal fraction that a double holds to
  the digit; the exponent notation and the rounding of other numbers are not modelled.
\<close>

definition strip_zeros :: "js_string \<Rightarrow> js_string" where
  "strip_zeros ds = rev (dropWhile (\<lambda>c. c = cu CHR ''0'') (rev ds))"

definition Number_toString :: "int \<Rightarrow> int \<Rightarrow> js_string" where
  "Number_toString m e =
     (if m = 0 then str ''0''
      else
        (let sign = (if m < 0 then str ''-'' else []);
             ds = digit_list (nat \<bar>m\<bar>)
         in if 0 \<le> e then sign @ ds @ replicate (nat e) (cu CHR ''0'')
            else
              (let k = nat (- e);
                   padded = replicate (Suc k - length ds) (cu CHR ''0'') @ ds;
                   ip = take (length padded - k) padded;
                   fp = strip_zeros (drop (length padded - k) padded)
               in if fp = [] then sign @ ip else sign @ ip @ str ''.'' @ fp)))"

fun join :: "js_string \<Rightarrow> js_string list \<Rightarrow> js_string" where
  "join sep [] = []"
| "join sep [x] = x"
| "join sep (x # y # ys) = x @ sep @ join sep (y # ys)"

text \<open>
  Conversion to string, as a template literal does it. An array is joined with commas,
  \<^verbatim>\<open>null\<close> elements giving the empty string.
\<close>

fun ToString :: "json \<Rightarrow> js_string" where
  "ToString JNull = str ''null''"
| "ToString (JBool b) = (if b then str ''true'' else str ''false'')"
| "ToString (JNum m e) = Number_toString m e"
| "ToString (JStr cs) = cs"
| "ToString (JArr vs) = join (str '','') (map (\<lambda>v. if v = JNull then [] else ToString v) vs)"
| "ToString (JObj kvs) = str ''[object Object]''"

definition ToString_opt :: "json option \<Rightarrow> js_string" where
  "ToString_opt v = (case v of None \<Rightarrow> str ''undefined'' | Some x \<Rightarrow> ToString x)"

section \<open>The page and its browser objects\<close>

text \<open>
  \<^verbatim>\<open>{ timestamp, message, type }\<close>, an element of \<^verbatim>\<open>metrics\<close>.
\<close>

record metric =
  timestamp :: js_string
  message :: js_string
  type :: js_string

datatype ready_state = CONNECTING | OPEN | CLOSED

record event_source =
  url :: js_string
  readyState :: ready_state

text \<open>
  The four variables of the script, and the browser objects they act on: \<open>sources\<close>
  holds every \<^verbatim>\<open>EventSource\<close> constructed so far (a reference is an index, \<^verbatim>\<open>null\<close>
  is \<open>None\<close>), \<open>timers\<close> the delays in milliseconds of the pending \<^verbatim>\<open>setTimeout\<close>
  callbacks (each callback is \<^verbatim>\<open>() => connectSSE()\<close>), and \<open>token\<close> the item
  \<^verbatim>\<open>"token"\<close> of \<^verbatim>\<open>localStorage\<close>.
\<close>

record state =
  eventSource :: "nat option"
  connected :: bool
  metrics :: "metric list"
  stats :: "js_string \<rightharpoonup> json"
  sources :: "event_source list"
  timers :: "nat list"
  token :: "js_string option"

text \<open>
  What the build and the browser fix: the value of \<^verbatim>\<open>import.meta.env.VITE_API_URL\<close>,
  and for each URL the message of the exception that \<^verbatim>\<open>new EventSource(url)\<close>
  throws, \<open>None\<close> when it returns an object.
\<close>

record platform =
  VITE_API_URL :: "js_string option"
  EventSource_throws :: "js_string \<Rightarrow> js_string option"

definition init :: "js_string option \<Rightarrow> state" where
  "init tok =
     \<lparr>eventSource = None,
      connected = False,
      metrics = [],
      stats = [str ''total_keys'' \<mapsto> JNum 0 0,
               str ''cache_hit_rate'' \<mapsto> JNum 0 0,
               str ''avg_response_time_ms'' \<mapsto> JNum 0 0,
               str ''requests_per_second'' \<mapsto> JNum 0 0],
      sources = [],
      timers = [],
      token = tok\<rparr>"

subsection \<open>\<^verbatim>\<open>lib/api.js\<close>\<close>

definition API_BASE_URL :: "platform \<Rightarrow> js_string" where
  "API_BASE_URL p =
     (case VITE_API_URL p of
        None \<Rightarrow> str ''http://localhost:8000/api/v1''
      | Some u \<Rightarrow> if u = [] then str ''http://localhost:8000/api/v1'' else u)"

definition getToken :: "state \<Rightarrow> js_string option" where
  "getToken s = token s"

text \<open>
  \<^verbatim>\<open>createEventSource(endpoint)\<close> returns the reference of the new object and the state
  that holds it (\<open>Inr\<close>), or the message of the constructor's exception (\<open>Inl\<close>).
\<close>

definition createEventSource :: "platform \<Rightarrow> js_string \<Rightarrow> state \<Rightarrow> js_string + nat \<times> state" where
  "createEventSource p endpoint s =
     (let tok = getToken s;
          u = API_BASE_URL p @ endpoint @ str ''?token='' @
              (case tok of None \<Rightarrow> str ''null'' | Some t \<Rightarrow> t)
      in case EventSource_throws p u of
           Some msg \<Rightarrow> Inl msg
         | None \<Rightarrow>
             Inr (length (sources s),
                  s\<lparr>sources := sources s @ [\<lparr>url = u, readyState = CONNECTING\<rparr>]\<rparr>))"

text \<open>The URL that \<^verbatim>\<open>createEventSource\<close> passes to the constructor.\<close>

definition event_source_url :: "platform \<Rightarrow> js_string \<Rightarrow> state \<Rightarrow> js_string" where
  "event_source_url p endpoint s =
     API_BASE_URL p @ endpoint @ str ''?token='' @
     (case getToken s of None \<Rightarrow> str ''null'' | Some t \<Rightarrow> t)"

subsection \<open>The script of the monitoring page\<close>

text \<open>
  Every function that calls \<^verbatim>\<open>addMetric\<close> takes the text that
  \<^verbatim>\<open>new Date().toLocaleTimeString()\<close> returns at that moment as \<open>now\<close>.
\<close>

definition addMetric :: "js_string \<Rightarrow> js_string \<Rightarrow> js_string \<Rightarrow> state \<Rightarrow> state" where
  "addMetric now msg ty s =
     s\<lparr>metrics := \<lparr>timestamp = now, message = msg, type = ty\<rparr> # take 99 (metrics s)\<rparr>"

definition close :: "nat \<Rightarrow> state \<Rightarrow> state" where
  "close h s =
     (if h < length (sources s)
      then s\<lparr>sources := (sources s)[h := (sources s ! h)\<lparr>readyState := CLOSED\<rparr>]\<rparr>
      else s)"

definition setTimeout :: "nat \<Rightarrow> state \<Rightarrow> state" where
  "setTimeout ms s = s\<lparr>timers := timers s @ [ms]\<rparr>"

definition connectSSE :: "platform \<Rightarrow> js_string \<Rightarrow> state \<Rightarrow> state" where
  "connectSSE p now s =
     (case createEventSource p (str ''/streaming/metrics'') s of
        Inr (h, s') \<Rightarrow> s'\<lparr>eventSource := Some h\<rparr>
      | Inl msg \<Rightarrow> addMetric now (str ''Failed to connect: '' @ msg) (str ''error'') s)"

text \<open>
  The listeners that \<^verbatim>\<open>connectSSE\<close> attaches. They are closures over the variables of
  the script, the same for every object. A listener returns the state it leaves and the
  exception it throws to the dispatcher, if any. 0x2713 and 0x2717 are the check mark
  and the ballot x of the two messages.
\<close>

definition onopen :: "js_string \<Rightarrow> state \<Rightarrow> state \<times> js_error option" where
  "onopen now s =
     (addMetric now (0x2713 # str '' Connected to real-time stream'') (str ''success'')
        (s\<lparr>connected := True\<rparr>),
      None)"

definition on_initial_stats :: "js_string \<Rightarrow> js_string \<Rightarrow> state \<Rightarrow> state \<times> js_error option" where
  "on_initial_stats now text s =
     (case JSON_parse text of
        Inl e \<Rightarrow> (s, Some e)
      | Inr d \<Rightarrow>
          (addMetric now (str ''Initial stats received'') (str ''info'')
             (s\<lparr>stats := stats s ++ own_props d\<rparr>),
           None))"

definition on_message :: "js_string \<Rightarrow> js_string \<Rightarrow> state \<Rightarrow> state \<times> js_error option" where
  "on_message now text s =
     (case JSON_parse text of
        Inl e \<Rightarrow> (s, Some e)
      | Inr d \<Rightarrow>
          (case get_prop d (str ''metric'') of
             Inl e \<Rightarrow> (s, Some e)
           | Inr m \<Rightarrow>
               (let s1 = (if ToBoolean m
                          then addMetric now
                                 (ToString_opt m @ str '': '' @
                                  ToString_opt (case get_prop d (str ''value'') of
                                                  Inl e \<Rightarrow> None | Inr v \<Rightarrow> v))
                                 (str ''info'') s
                          else s)
                in case get_prop d (str ''cache_hit_rate'') of
                     Inl e \<Rightarrow> (s1, Some e)
                   | Inr c \<Rightarrow>
                       if c \<noteq> None then (s1\<lparr>stats := stats s1 ++ own_props d\<rparr>, None)
                       else (s1, None))))"

definition on_heartbeat :: "state \<Rightarrow> state \<times> js_error option" where
  "on_heartbeat s = (s, None)"

definition onerror :: "js_string \<Rightarrow> state \<Rightarrow> state \<times> js_error option" where
  "onerror now s =
     (let s1 = addMetric now (0x2717 # str '' Connection lost, reconnecting...'') (str ''error'')
                 (s\<lparr>connected := False\<rparr>)
      in case eventSource s1 of
           None \<Rightarrow> (s1, Some TypeError)
         | Some h \<Rightarrow> (setTimeout 3000 (close h s1), None))"

definition disconnect :: "js_string \<Rightarrow> state \<Rightarrow> state" where
  "disconnect now s =
     (case eventSource s of
        None \<Rightarrow> s
      | Some h \<Rightarrow>
          addMetric now (str ''Disconnected from stream'') (str ''warning'')
            ((close h s)\<lparr>connected := False\<rparr>))"


subsection \<open>What the browser and the user do to the page\<close>

text \<open>
  The named listeners of an event: \<^verbatim>\<open>initial_stats\<close>, \<^verbatim>\<open>message\<close> and
  \<^verbatim>\<open>heartbeat\<close> have one, an event of another name has none.
\<close>

definition dispatch :: "js_string \<Rightarrow> js_string \<Rightarrow> js_string \<Rightarrow> state \<Rightarrow> state \<times> js_error option" where
  "dispatch now name text s =
     (if name = str ''initial_stats'' then on_initial_stats now text s
      else if name = str ''message'' then on_message now text s
      else if name = str ''heartbeat'' then on_heartbeat s
      else (s, None))"

definition set_readyState :: "nat \<Rightarrow> ready_state \<Rightarrow> state \<Rightarrow> state" where
  "set_readyState i r s = s\<lparr>sources := (sources s)[i := (sources s ! i)\<lparr>readyState := r\<rparr>]\<rparr>"

text \<open>
  The events of a session. \<open>Mount\<close> and \<open>Destroy\<close> are \<^verbatim>\<open>onMount\<close> and
  \<^verbatim>\<open>onDestroy\<close>; the page renders the Connect button while \<^verbatim>\<open>connected\<close> is false
  and the Disconnect button while it is true. An \<^verbatim>\<open>EventSource\<close> opens from
  CONNECTING, delivers named events while OPEN, and fails, for good (CLOSED) or to retry
  by itself (CONNECTING), unless it is CLOSED already; the browser sets the
  \<^verbatim>\<open>readyState\<close> before it calls the listener. A pending timer fires and calls
  \<^verbatim>\<open>connectSSE\<close>. An exception that a listener throws is reported by the browser and
  the session goes on from the state the listener left. \<open>step\<close> is \<open>None\<close> when the
  event cannot happen in the state.
\<close>

datatype event =
    Mount
  | Destroy
  | ClickConnect
  | ClickDisconnect
  | SourceOpen nat
  | SourceEvent nat js_string js_string
  | SourceError nat bool
  | TimerFires nat

definition step :: "platform \<Rightarrow> js_string \<Rightarrow> event \<Rightarrow> state \<Rightarrow> state option" where
  "step p now ev s =
     (case ev of
        Mount \<Rightarrow> Some (connectSSE p now s)
      | Destroy \<Rightarrow> Some (disconnect now s)
      | ClickConnect \<Rightarrow> if connected s then None else Some (connectSSE p now s)
      | ClickDisconnect \<Rightarrow> if connected s then Some (disconnect now s) else None
      | SourceOpen i \<Rightarrow>
          if i < length (sources s) \<and> readyState (sources s ! i) = CONNECTING
          then Some (fst (onopen now (set_readyState i OPEN s)))
          else None
      | SourceEvent i name text \<Rightarrow>
          if i < length (sources s) \<and> readyState (sources s ! i) = OPEN
          then Some (fst (dispatch now name text s))
          else None
      | SourceError i fatal \<Rightarrow>
          if i < length (sources s) \<and> readyState (sources s ! i) \<noteq> CLOSED
          then Some (fst (onerror now
                            (set_readyState i (if fatal then CLOSED else CONNECTING) s)))
          else None
      | TimerFires k \<Rightarrow>
          if k < length (timers s)
          then Some (connectSSE p now (s\<lparr>timers := take k (timers s) @ drop (Suc k) (timers s)\<rparr>))
          else None)"

fun run :: "platform \<Rightarrow> (js_string \<times> event) list \<Rightarrow> state \<Rightarrow> state option" where
  "run p [] s = Some s"
| "run p ((now, ev) # evs) s =
     (case step p now ev s of
        None \<Rightarrow> None
      | Some s' \<Rightarrow> run p evs s')"

text \<open>The transports that are not closed.\<close>

definition live :: "state \<Rightarrow> nat list" where
  "live s = filter (\<lambda>i. readyState (sources s ! i) \<noteq> CLOSED) [0..<length (sources s)]"


text \<open>A sequence of \<^verbatim>\<open>addMetric\<close> calls, each with its clock text, message and type.\<close>

definition entry :: "js_string \<times> js_string \<times> js_string \<Rightarrow> metric" where
  "entry x = (case x of (now, msg, ty) \<Rightarrow> \<lparr>timestamp = now, message = msg, type = ty\<rparr>)"

fun addMetrics :: "(js_string \<times> js_string \<times> js_string) list \<Rightarrow> state \<Rightarrow> state" where
  "addMetrics [] s = s"
| "addMetrics ((now, msg, ty) # xs) s = addMetrics xs (addMetric now msg ty s)"

text \<open>A platform with the default base URL whose constructor accepts every URL.\<close>

definition default_platform :: platform where
  "default_platform = \<lparr>VITE_API_URL = None, EventSource_throws = (\<lambda>u. None)\<rparr>"


subsection \<open>Scenarios\<close>

text \<open>
  150 calls of \<^verbatim>\<open>addMetric\<close> whose messages are the numerals 1 to 150.
\<close>

definition calls150 :: "(js_string \<times> js_string \<times> js_string) list" where
  "calls150 = map (\<lambda>i. (str ''10:15:00'', digit_list i, str ''info'')) [1..<151]"

text \<open>The clock text of the scenarios.\<close>

definition clock :: js_string where
  "clock = str ''10:15:00''"

text \<open>
  The page after \<^verbatim>\<open>onMount\<close> and the opening of its first transport, with no stored
  token.
\<close>

definition connected_state :: state where
  "connected_state =
     fst (onopen clock (set_readyState 0 OPEN (connectSSE default_platform clock (init None))))"

text \<open>Frame texts: one that is not JSON, and payloads of the two data channels.\<close>

definition not_json_text :: js_string where
  "not_json_text = str ''not json''"








definition double_connect :: "(js_string \<times> event) list" where
  "double_connect = [(clock, Mount), (clock, ClickConnect)]"



section \<open>Strings\<close>

text \<open>Two literals are the same string only if they are the same text.\<close>

lemma unat_cu: "unat (cu c) = (of_char c :: nat)"
proof -
  have "(of_char c :: nat) < 256"
    by (metis of_char_mod_256 mod_less_divisor zero_less_numeral)
  then have "(of_char c :: nat) < 65536" by linarith
  then have "(of_char c :: nat) < 2 ^ LENGTH(16)" by simp
  moreover have "cu c = (of_nat (of_char c) :: 16 word)"
    by (simp add: cu_def of_nat_of_char)
  ultimately show ?thesis
    by (simp only: unat_of_nat) simp
qed

lemma cu_eq_iff [simp]: "cu a = cu b \<longleftrightarrow> a = b"
proof
  assume "cu a = cu b"
  then have "unat (cu a) = unat (cu b)" by simp
  then show "a = b" by (simp add: unat_cu)
qed simp

lemma str_eq_iff [simp]: "str a = str b \<longleftrightarrow> a = b"
  by (auto simp: str_def inj_on_def intro!: inj_onI dest!: map_inj_on [where f = cu and xs = a and ys = b])

section \<open>The bound on the nesting of \<^verbatim>\<open>JSON.parse\<close>\<close>

text \<open>
  Every parser returns a remainder no longer than its input, and the recursive descent
  gives the same result for every bound above twice the length of the text: the bound
  that \<open>JSON_parse\<close> starts with is never what makes it reject a text.
\<close>

lemma length_skip_ws: "length (skip_ws cs) \<le> length cs"
  by (simp add: skip_ws_def length_dropWhile_le)

lemma skip_ws_Cons: "skip_ws cs = c # r \<Longrightarrow> length r < length cs"
  using length_skip_ws [of cs] by simp

lemma consc_Some: "consc c r = Some (s, rest) \<Longrightarrow> \<exists>s'. r = Some (s', rest)"
  by (auto simp: consc_def split: option.splits)

lemma lex_string_rest: "lex_string cs = Some (s, rest) \<Longrightarrow> length rest < length cs"
proof (induction cs arbitrary: s rest rule: lex_string.induct)
  case 1
  then show ?case by simp
next
  case (2 c cs)
  show ?case
  proof (cases "c = 0x22")
    case True
    with 2 show ?thesis by simp
  next
    case q: False
    show ?thesis
    proof (cases "c = 0x5C")
      case False
      with q "2.prems" have lt: "\<not> c < 0x20" and r: "consc c (lex_string cs) = Some (s, rest)"
        by (auto split: if_splits)
      from consc_Some [OF r] obtain s' where "lex_string cs = Some (s', rest)" by blast
      with "2.IH"(3) [OF q False lt] show ?thesis by fastforce
    next
      case b: True
      show ?thesis
      proof (cases cs)
        case Nil
        with q b "2.prems" show ?thesis by simp
      next
        case (Cons e r)
        show ?thesis
        proof (cases "e = cu CHR ''u''")
          case u: True
          from q b Cons u "2.prems" obtain h1 h2 h3 h4 r' x
            where r: "r = h1 # h2 # h3 # h4 # r'" and hx: "hex4 h1 h2 h3 h4 = Some x"
              and c: "consc x (lex_string r') = Some (s, rest)"
            by (auto split: list.splits option.splits)
          from consc_Some [OF c] obtain s' where "lex_string r' = Some (s', rest)" by blast
          with "2.IH"(1) q b Cons u r hx have "length rest < length r'" by auto
          then show ?thesis using Cons r by simp
        next
          case nu: False
          from q b Cons nu "2.prems" obtain x
            where ux: "unescape e = Some x" and c: "consc x (lex_string r) = Some (s, rest)"
            by (auto split: option.splits)
          from consc_Some [OF c] obtain s' where "lex_string r = Some (s', rest)" by blast
          with "2.IH"(2) [OF q b Cons nu ux] have "length rest < length r" by blast
          then show ?thesis using Cons by simp
        qed
      qed
    qed
  qed
qed

lemma lex_digits_rest: "lex_digits cs = Some (ds, rest) \<Longrightarrow> length rest \<le> length cs"
  by (auto simp: lex_digits_def Let_def length_dropWhile_le split: if_splits)

lemma lex_int_rest: "lex_int cs = Some (ds, rest) \<Longrightarrow> length rest \<le> length cs"
  by (auto simp: lex_int_def split: list.splits if_splits dest: lex_digits_rest)

lemma lex_frac_rest: "lex_frac cs = Some (ds, rest) \<Longrightarrow> length rest \<le> length cs"
  by (auto simp: lex_frac_def split: list.splits if_splits dest: lex_digits_rest)

lemma lex_exp_rest: "lex_exp cs = Some (e, rest) \<Longrightarrow> length rest \<le> length cs"
  by (auto simp: lex_exp_def split: list.splits if_splits option.splits dest: lex_digits_rest)

lemma lex_number_rest: "lex_number cs = Some (v, rest) \<Longrightarrow> length rest \<le> length cs"
proof -
  assume a: "lex_number cs = Some (v, rest)"
  let ?cs1 = "if cs \<noteq> [] \<and> hd cs = cu CHR ''-'' then tl cs else cs"
  from a obtain ip cs2 fp cs3 ex
    where 1: "lex_int ?cs1 = Some (ip, cs2)" and 2: "lex_frac cs2 = Some (fp, cs3)"
      and 3: "lex_exp cs3 = Some (ex, rest)"
    by (auto simp: lex_number_def Let_def split: option.splits)
  have "length ?cs1 \<le> length cs" by simp
  with lex_int_rest [OF 1] lex_frac_rest [OF 2] lex_exp_rest [OF 3] show ?thesis
    by linarith
qed

lemma lex_literal_rest: "lex_literal cs = Some (v, rest) \<Longrightarrow> length rest \<le> length cs"
  by (auto simp: lex_literal_def split: if_splits)


lemma parse_rest:
  "(parse_value n cs = Some (v, rest) \<longrightarrow> length rest \<le> length cs)
   \<and> (parse_elements n acc cs = Some (v, rest) \<longrightarrow> length rest \<le> length cs)
   \<and> (parse_members n macc cs = Some (v, rest) \<longrightarrow> length rest \<le> length cs)"
proof (induction n arbitrary: cs v rest acc macc)
  case 0
  show ?case by simp
next
  case (Suc n)
  have V: "\<And>cs v rest. parse_value n cs = Some (v, rest) \<Longrightarrow> length rest \<le> length cs"
    and E: "\<And>acc cs v rest. parse_elements n acc cs = Some (v, rest) \<Longrightarrow> length rest \<le> length cs"
    and M: "\<And>macc cs v rest. parse_members n macc cs = Some (v, rest) \<Longrightarrow> length rest \<le> length cs"
    using Suc.IH by blast+
  have 1: "length rest \<le> length cs" if p: "parse_value (Suc n) cs = Some (v, rest)"
  proof (cases "skip_ws cs")
    case Nil
    with p show ?thesis by simp
  next
    case (Cons c r)
    note lr = skip_ws_Cons [OF Cons]
    consider (obj) "c = cu CHR ''{''"
      | (arr) "c \<noteq> cu CHR ''{''" "c = cu CHR ''[''"
      | (str) "c \<noteq> cu CHR ''{''" "c \<noteq> cu CHR ''[''" "c = 0x22"
      | (num) "c \<noteq> cu CHR ''{''" "c \<noteq> cu CHR ''[''" "c \<noteq> 0x22"
              "c = cu CHR ''-'' \<or> is_digit c"
      | (lit) "c \<noteq> cu CHR ''{''" "c \<noteq> cu CHR ''[''" "c \<noteq> 0x22"
              "\<not> (c = cu CHR ''-'' \<or> is_digit c)"
      by blast
    then show ?thesis
    proof cases
      case obj
      show ?thesis
      proof (cases "skip_ws r")
        case Nil
        with p Cons obj show ?thesis by simp
      next
        case c2: (Cons c2 r2)
        note l2 = skip_ws_Cons [OF c2]
        show ?thesis
        proof (cases "c2 = cu CHR ''}''")
          case True
          with p Cons obj c2 have "rest = r2" by simp
          with lr l2 show ?thesis by simp
        next
          case False
          with p Cons obj c2 have "parse_members n [] (c2 # r2) = Some (v, rest)" by simp
          from M [OF this] lr l2 show ?thesis by simp
        qed
      qed
    next
      case arr
      show ?thesis
      proof (cases "skip_ws r")
        case Nil
        with p Cons arr show ?thesis by simp
      next
        case c2: (Cons c2 r2)
        note l2 = skip_ws_Cons [OF c2]
        show ?thesis
        proof (cases "c2 = cu CHR '']''")
          case True
          with p Cons arr c2 have "rest = r2" by simp
          with lr l2 show ?thesis by simp
        next
          case False
          with p Cons arr c2 have "parse_elements n [] (c2 # r2) = Some (v, rest)" by simp
          from E [OF this] lr l2 show ?thesis by simp
        qed
      qed
    next
      case str
      with p Cons obtain s where "lex_string r = Some (s, rest)"
        by (auto split: option.splits)
      from lex_string_rest [OF this] lr show ?thesis by simp
    next
      case num
      with p Cons have "lex_number (c # r) = Some (v, rest)" by auto
      from lex_number_rest [OF this] lr show ?thesis by simp
    next
      case lit
      with p Cons have "lex_literal (c # r) = Some (v, rest)" by auto
      from lex_literal_rest [OF this] lr show ?thesis by simp
    qed
  qed
  have 2: "length rest \<le> length cs" if p: "parse_elements (Suc n) acc cs = Some (v, rest)"
  proof -
    from p obtain v1 rest1 where v1: "parse_value n cs = Some (v1, rest1)"
      by (auto split: option.splits)
    note l1 = V [OF v1]
    show ?thesis
    proof (cases "skip_ws rest1")
      case Nil
      with p v1 show ?thesis by simp
    next
      case (Cons c r)
      note lr = skip_ws_Cons [OF Cons]
      show ?thesis
      proof (cases "c = cu CHR '',''")
        case True
        with p v1 Cons have "parse_elements n (acc @ [v1]) r = Some (v, rest)" by simp
        from E [OF this] lr l1 show ?thesis by simp
      next
        case False
        with p v1 Cons have "rest = r" by (auto split: if_splits)
        with lr l1 show ?thesis by simp
      qed
    qed
  qed
  have 3: "length rest \<le> length cs" if p: "parse_members (Suc n) macc cs = Some (v, rest)"
  proof (cases "skip_ws cs")
    case Nil
    with p show ?thesis by simp
  next
    case (Cons c r)
    note lr = skip_ws_Cons [OF Cons]
    from p Cons have q: "c = 0x22" by (auto split: if_splits)
    with p Cons obtain k rest0 where k: "lex_string r = Some (k, rest0)"
      by (auto split: option.splits)
    note lk = lex_string_rest [OF k]
    from p Cons q k obtain c2 r2 where c2: "skip_ws rest0 = c2 # r2"
      by (auto split: list.splits)
    note l2 = skip_ws_Cons [OF c2]
    from p Cons q k c2 have col: "c2 = cu CHR '':''" by (auto split: if_splits)
    with p Cons q k c2 obtain v1 rest2 where v1: "parse_value n r2 = Some (v1, rest2)"
      by (auto split: option.splits)
    note l3 = V [OF v1]
    from p Cons q k c2 col v1 obtain c3 r3 where c3: "skip_ws rest2 = c3 # r3"
      by (auto split: list.splits)
    note l4 = skip_ws_Cons [OF c3]
    show ?thesis
    proof (cases "c3 = cu CHR '',''")
      case True
      with p Cons q k c2 col v1 c3
      have "parse_members n (macc @ [(k, v1)]) r3 = Some (v, rest)" by simp
      from M [OF this] lr lk l2 l3 l4 show ?thesis by simp
    next
      case False
      with p Cons q k c2 col v1 c3 have "rest = r3" by (auto split: if_splits)
      with lr lk l2 l3 l4 show ?thesis by simp
    qed
  qed
  show ?case using 1 2 3 by blast
qed


lemmas parse_value_rest = parse_rest [THEN conjunct1, rule_format]

lemma parse_fuel:
  "(2 * length cs < n \<longrightarrow> 2 * length cs < m \<longrightarrow> parse_value n cs = parse_value m cs)
   \<and> (2 * length cs + 1 < n \<longrightarrow> 2 * length cs + 1 < m \<longrightarrow>
        parse_elements n acc cs = parse_elements m acc cs)
   \<and> (2 * length cs + 1 < n \<longrightarrow> 2 * length cs + 1 < m \<longrightarrow>
        parse_members n macc cs = parse_members m macc cs)"
proof (induction n arbitrary: m cs acc macc)
  case 0
  show ?case by simp
next
  case (Suc n)
  show ?case
  proof (cases m)
    case 0
    then show ?thesis by simp
  next
    case m: (Suc m')
    have V: "\<And>cs. 2 * length cs < n \<Longrightarrow> 2 * length cs < m' \<Longrightarrow>
               parse_value n cs = parse_value m' cs"
      and E: "\<And>acc cs. 2 * length cs + 1 < n \<Longrightarrow> 2 * length cs + 1 < m' \<Longrightarrow>
               parse_elements n acc cs = parse_elements m' acc cs"
      and M: "\<And>macc cs. 2 * length cs + 1 < n \<Longrightarrow> 2 * length cs + 1 < m' \<Longrightarrow>
               parse_members n macc cs = parse_members m' macc cs"
      using Suc.IH by blast+
    have 1: "parse_value (Suc n) cs = parse_value (Suc m') cs"
      if b: "2 * length cs < Suc n" "2 * length cs < Suc m'"
    proof (cases "skip_ws cs")
      case Nil
      then show ?thesis by simp
    next
      case (Cons c r)
      note lr = skip_ws_Cons [OF Cons]
      show ?thesis
      proof (cases "skip_ws r")
        case Nil
        with Cons show ?thesis by simp
      next
        case c2: (Cons c2 r2)
        note l2 = skip_ws_Cons [OF c2]
        have eqM: "\<And>x. parse_members n [] (x # r2) = parse_members m' [] (x # r2)"
          using lr l2 b by (intro M) simp_all
        have eqE: "\<And>x. parse_elements n [] (x # r2) = parse_elements m' [] (x # r2)"
          using lr l2 b by (intro E) simp_all
        show ?thesis using Cons c2 by (simp add: eqM eqE)
      qed
    qed
    have 2: "parse_elements (Suc n) acc cs = parse_elements (Suc m') acc cs"
      if b: "2 * length cs + 1 < Suc n" "2 * length cs + 1 < Suc m'"
    proof -
      have eqV: "parse_value n cs = parse_value m' cs"
        using b by (intro V) simp_all
      show ?thesis
      proof (cases "parse_value m' cs")
        case None
        with eqV show ?thesis by simp
      next
        case (Some a)
        obtain v1 rest1 where a: "a = (v1, rest1)" by (cases a)
        note l1 = parse_value_rest [OF Some [unfolded a]]
        show ?thesis
        proof (cases "skip_ws rest1")
          case Nil
          with eqV Some a show ?thesis by simp
        next
          case (Cons c r)
          note lr = skip_ws_Cons [OF Cons]
          have "parse_elements n (acc @ [v1]) r = parse_elements m' (acc @ [v1]) r"
            using lr l1 b by (intro E) simp_all
          then show ?thesis using eqV Some a Cons by simp
        qed
      qed
    qed
    have 3: "parse_members (Suc n) macc cs = parse_members (Suc m') macc cs"
      if b: "2 * length cs + 1 < Suc n" "2 * length cs + 1 < Suc m'"
    proof (cases "skip_ws cs")
      case Nil
      then show ?thesis by simp
    next
      case (Cons c r)
      note lr = skip_ws_Cons [OF Cons]
      show ?thesis
      proof (cases "lex_string r")
        case None
        with Cons show ?thesis by simp
      next
        case (Some a)
        obtain k rest0 where a: "a = (k, rest0)" by (cases a)
        note lk = lex_string_rest [OF Some [unfolded a]]
        show ?thesis
        proof (cases "skip_ws rest0")
          case Nil
          with Cons Some a show ?thesis by simp
        next
          case c2: (Cons c2 r2)
          note l2 = skip_ws_Cons [OF c2]
          have eqV: "parse_value n r2 = parse_value m' r2"
            using lr lk l2 b by (intro V) simp_all
          show ?thesis
          proof (cases "parse_value m' r2")
            case None
            with eqV Cons Some a c2 show ?thesis by simp
          next
            case v: (Some a1)
            obtain v1 rest2 where a1: "a1 = (v1, rest2)" by (cases a1)
            note l3 = parse_value_rest [OF v [unfolded a1]]
            show ?thesis
            proof (cases "skip_ws rest2")
              case Nil
              with eqV Cons Some a c2 v a1 show ?thesis by simp
            next
              case c3: (Cons c3 r3)
              note l4 = skip_ws_Cons [OF c3]
              have "parse_members n (macc @ [(k, v1)]) r3
                    = parse_members m' (macc @ [(k, v1)]) r3"
                using lr lk l2 l3 l4 b by (intro M) simp_all
              then show ?thesis using eqV Cons Some a c2 v a1 c3 by simp
            qed
          qed
        qed
      qed
    qed
    show ?thesis using 1 2 3 m by blast
  qed
qed

text \<open>
  The bound on the nesting of calls does not limit \<^verbatim>\<open>JSON.parse\<close>: any bound above
  twice the length of the text gives the result that \<open>JSON_parse\<close> computes.
\<close>

lemma JSON_parse_any_bound:
  "2 * length cs < n \<Longrightarrow>
   JSON_parse cs =
     (case parse_value n cs of
        None \<Rightarrow> Inl SyntaxError
      | Some (v, rest) \<Rightarrow> if skip_ws rest = [] then Inr v else Inl SyntaxError)"
proof -
  assume "2 * length cs < n"
  then have "parse_value (2 * length cs + 2) cs = parse_value n cs"
    using parse_fuel [of cs "2 * length cs + 2" n] by simp
  then show ?thesis by (simp add: JSON_parse_def)
qed

section \<open>The activity log\<close>

lemma take_append_take: "take n (xs @ take n ys) = take n (xs @ ys)"
  by (simp add: min_def)

lemma metrics_addMetric:
  "metrics (addMetric now msg ty s) = take 100 (entry (now, msg, ty) # metrics s)"
  by (simp add: addMetric_def entry_def)

lemma length_metrics_addMetric:
  "length (metrics (addMetric now msg ty s)) \<le> 100"
  by (simp add: addMetric_def)

lemma metrics_addMetrics:
  "length (metrics s) \<le> 100 \<Longrightarrow>
   metrics (addMetrics xs s) = take 100 (rev (map entry xs) @ metrics s)"
proof (induction xs arbitrary: s)
  case Nil
  then show ?case by simp
next
  case (Cons x xs)
  obtain now msg ty where x: "x = (now, msg, ty)"
    by (cases x) auto
  have "metrics (addMetrics (x # xs) s)
        = take 100 (rev (map entry xs) @ take 100 (entry x # metrics s))"
    using Cons.IH [of "addMetric now msg ty s"]
    by (simp add: x metrics_addMetric length_metrics_addMetric del: take_Suc_Cons)
  also have "\<dots> = take 100 (rev (map entry xs) @ entry x # metrics s)"
    by (rule take_append_take)
  finally show ?case by simp
qed

lemma last_take_rev:
  "100 \<le> length xs \<Longrightarrow> last (take 100 (rev xs)) = xs ! (length xs - 100)"
proof -
  assume le: "100 \<le> length xs"
  then have "take 100 (rev xs) \<noteq> []" by auto
  then have "last (take 100 (rev xs)) = take 100 (rev xs) ! (length (take 100 (rev xs)) - 1)"
    by (rule last_conv_nth)
  also have "\<dots> = rev xs ! 99" using le by simp
  also have "\<dots> = xs ! (length xs - 100)" using le by (simp add: rev_nth)
  finally show ?thesis .
qed

text \<open>
  C5. Starting from the empty log of a fresh page, after any sequence of
  \<^verbatim>\<open>addMetric\<close> calls the log holds the entries of the calls newest first, cut to
  the 100 most recent, so its length is the smaller of the number of calls and 100;
  once 100 or more calls were made its last element is the entry of the call that is
  the 100th from the end, which after 150 calls is the 51st call.
\<close>

theorem C5_activity_log_bounded_newest_first:
  "metrics (addMetrics xs (init tok)) = take 100 (rev (map entry xs))
   \<and> length (metrics (addMetrics xs (init tok))) = min (length xs) 100
   \<and> (100 \<le> length xs \<longrightarrow>
        last (metrics (addMetrics xs (init tok))) = entry (xs ! (length xs - 100)))
   \<and> (length xs = 150 \<longrightarrow>
        length (metrics (addMetrics xs (init tok))) = 100
        \<and> last (metrics (addMetrics xs (init tok))) = entry (xs ! 50))"
proof -
  have m: "metrics (addMetrics xs (init tok)) = take 100 (rev (map entry xs))"
    using metrics_addMetrics [of "init tok" xs] by (simp add: init_def)
  have l: "100 \<le> length xs \<Longrightarrow>
           last (metrics (addMetrics xs (init tok))) = entry (xs ! (length xs - 100))"
    using last_take_rev [of "map entry xs"] by (simp add: m rev_map)
  show ?thesis using m l by (auto simp: min_def)
qed

lemma length_calls150: "length calls150 = 150"
  by (simp add: calls150_def)

lemma calls150_nth_50: "calls150 ! 50 = (str ''10:15:00'', str ''51'', str ''info'')"
  by (simp add: calls150_def str_def cu_def digit_list.simps)

lemma digits_val_snoc: "digits_val (ds @ [c]) = 10 * digits_val ds + (unat c - 48)"
  by (simp add: digits_val_def)

lemma unat_digit: "d < 10 \<Longrightarrow> unat (of_nat (48 + d) :: 16 word) - 48 = d"
proof -
  assume d: "d < 10"
  have "unat (of_nat (48 + d) :: 16 word) = (48 + d) mod 2 ^ LENGTH(16)"
    by (simp only: unat_of_nat)
  with d show ?thesis by simp
qed

text \<open>Reading the decimal digits of a number gives the number back.\<close>

lemma digits_val_digit_list: "digits_val (digit_list n) = n"
proof (induction n rule: digit_list.induct)
  case (1 n)
  show ?case
  proof (cases "n < 10")
    case True
    then show ?thesis
      using unat_digit [of n] by (simp add: digit_list.simps [of n] digits_val_def)
  next
    case False
    then have "digits_val (digit_list n) = 10 * (n div 10) + n mod 10"
      using 1 unat_digit [of "n mod 10"]
      by (simp add: digit_list.simps [of n] digits_val_snoc)
    then show ?thesis by simp
  qed
qed

lemma inj_digit_list: "inj digit_list"
  by (rule inj_on_inverseI [where g = digits_val]) (rule digits_val_digit_list)

lemma distinct_calls150: "distinct (map (\<lambda>x. fst (snd x)) calls150)"
proof -
  have "map (\<lambda>x. fst (snd x)) calls150 = map digit_list [1..<151]"
    by (simp add: calls150_def comp_def)
  then show ?thesis
    using inj_digit_list by (simp add: distinct_map inj_on_def)
qed

text \<open>
  The scenario of 150 calls with distinct messages: the log has 100 entries and the
  last one carries the message of the 51st call.
\<close>

theorem C5_activity_log_witness:
  "length calls150 = 150
   \<and> distinct (map (\<lambda>x. fst (snd x)) calls150)
   \<and> length (metrics (addMetrics calls150 (init None))) = 100
   \<and> last (metrics (addMetrics calls150 (init None)))
       = \<lparr>timestamp = str ''10:15:00'', message = str ''51'', type = str ''info''\<rparr>"
proof -
  have h: "length calls150 = 150" by (rule length_calls150)
  from C5_activity_log_bounded_newest_first [of calls150 None] h
  have a: "length (metrics (addMetrics calls150 (init None))) = 100"
    and b: "last (metrics (addMetrics calls150 (init None))) = entry (calls150 ! 50)"
    by blast+
  have c: "entry (calls150 ! 50)
           = \<lparr>timestamp = str ''10:15:00'', message = str ''51'', type = str ''info''\<rparr>"
    by (simp add: calls150_nth_50 entry_def)
  show ?thesis using h a b c distinct_calls150 by simp
qed

section \<open>Frames and their listeners\<close>

lemma names_distinct:
  "str ''initial_stats'' \<noteq> str ''message''"
  "str ''heartbeat'' \<noteq> str ''initial_stats''"
  "str ''heartbeat'' \<noteq> str ''message''"
  "str ''message'' \<noteq> str ''initial_stats''"
  "str ''initial_stats'' \<noteq> str ''heartbeat''"
  "str ''message'' \<noteq> str ''heartbeat''"
  by (simp_all add: str_def cu_def)

lemma JSON_parse_error: "JSON_parse text = Inl e \<Longrightarrow> e = SyntaxError"
  by (cases e) (auto simp: JSON_parse_def split: option.splits if_splits)

lemma addMetric_fields [simp]:
  "connected (addMetric now msg ty s) = connected s"
  "eventSource (addMetric now msg ty s) = eventSource s"
  "sources (addMetric now msg ty s) = sources s"
  "timers (addMetric now msg ty s) = timers s"
  "stats (addMetric now msg ty s) = stats s"
  "token (addMetric now msg ty s) = token s"
  by (simp_all add: addMetric_def)


lemma get_prop_null_iff: "(\<exists>e. get_prop d k = Inl e) \<longleftrightarrow> d = JNull"
  by (cases d) (auto simp: get_prop_def)










lemma JSON_parse_Inl_iff: "(\<exists>e. JSON_parse text = Inl e) \<longleftrightarrow> JSON_parse text = Inl SyntaxError"
  using JSON_parse_error by blast





section \<open>Heartbeats\<close>

text \<open>
  C8. A \<^verbatim>\<open>heartbeat\<close> event of any text leaves the whole state as it was (the stats,
  the \<^verbatim>\<open>connected\<close> flag, the log and all the rest) and throws nothing; so does the
  step of an open transport that delivers it.
\<close>

theorem C8_heartbeat_silent:
  "dispatch now (str ''heartbeat'') text s = (s, None)
   \<and> (i < length (sources s) \<and> readyState (sources s ! i) = OPEN \<longrightarrow>
        step p now (SourceEvent i (str ''heartbeat'') text) s = Some s)"
  by (simp add: dispatch_def on_heartbeat_def names_distinct step_def)

lemma connected_state_source:
  "sources connected_state = [\<lparr>url = str ''http://localhost:8000/api/v1/streaming/metrics?token=null'', readyState = OPEN\<rparr>]"
  by (simp add: connected_state_def onopen_def set_readyState_def connectSSE_def
        createEventSource_def default_platform_def API_BASE_URL_def getToken_def init_def str_def)

text \<open>
  On the page with one open transport, a heartbeat whose text is not even JSON leaves
  the state as it was.
\<close>

theorem C8_heartbeat_witness:
  "length (sources connected_state) = 1
   \<and> readyState (sources connected_state ! 0) = OPEN
   \<and> step default_platform clock (SourceEvent 0 (str ''heartbeat'') not_json_text) connected_state
       = Some connected_state"
  using C8_heartbeat_silent [of clock not_json_text connected_state 0 default_platform]
  by (simp add: connected_state_source)

section \<open>Messages: the log entry and the merge\<close>























section \<open>Opening a transport\<close>

lemma createEventSource_url:
  "createEventSource p endpoint s =
     (case EventSource_throws p (event_source_url p endpoint s) of
        Some msg \<Rightarrow> Inl msg
      | None \<Rightarrow>
          Inr (length (sources s),
               s\<lparr>sources := sources s @
                    [\<lparr>url = event_source_url p endpoint s, readyState = CONNECTING\<rparr>]\<rparr>))"
  by (simp add: createEventSource_def event_source_url_def Let_def cong: option.case_cong)

lemma event_source_url_no_token:
  "token s = None \<Longrightarrow>
   event_source_url p endpoint s = API_BASE_URL p @ endpoint @ str ''?token=null''"
  by (simp add: event_source_url_def getToken_def str_def)

lemma event_source_url_token_cong:
  "token s' = token s \<Longrightarrow> event_source_url p endpoint s' = event_source_url p endpoint s"
  by (simp add: event_source_url_def getToken_def)

lemma connectSSE_ok:
  "EventSource_throws p (event_source_url p (str ''/streaming/metrics'') s) = None \<Longrightarrow>
   connectSSE p now s =
     s\<lparr>sources := sources s @
          [\<lparr>url = event_source_url p (str ''/streaming/metrics'') s, readyState = CONNECTING\<rparr>],
       eventSource := Some (length (sources s))\<rparr>"
  by (simp add: connectSSE_def createEventSource_url)

lemma live_append:
  "live (s\<lparr>sources := sources s @ [x]\<rparr>) =
     live s @ (if readyState x \<noteq> CLOSED then [length (sources s)] else [])"
proof -
  have "filter (\<lambda>i. readyState ((sources s @ [x]) ! i) \<noteq> CLOSED) [0..<length (sources s)]
        = filter (\<lambda>i. readyState (sources s ! i) \<noteq> CLOSED) [0..<length (sources s)]"
    by (rule filter_cong) (auto simp: nth_append)
  then show ?thesis by (simp add: live_def)
qed

lemma live_cong: "sources s' = sources s \<Longrightarrow> live s' = live s"
  by (simp add: live_def)

lemma live_connectSSE:
  "EventSource_throws p (event_source_url p (str ''/streaming/metrics'') s) = None \<Longrightarrow>
   live (connectSSE p now s) = live s @ [length (sources s)]"
proof -
  assume ok: "EventSource_throws p (event_source_url p (str ''/streaming/metrics'') s) = None"
  let ?x = "\<lparr>url = event_source_url p (str ''/streaming/metrics'') s, readyState = CONNECTING\<rparr>"
  have "live (connectSSE p now s) = live (s\<lparr>sources := sources s @ [?x]\<rparr>)"
    by (rule live_cong) (simp add: connectSSE_ok [OF ok])
  then show ?thesis by (simp add: live_append)
qed

text \<open>
  C10. With no stored token, \<^verbatim>\<open>createEventSource\<close> constructs the object whenever the
  constructor accepts the URL, which ends in the literal text \<^verbatim>\<open>?token=null\<close>, and
  \<^verbatim>\<open>connectSSE\<close> makes it the handle. \<^verbatim>\<open>createEventSource\<close> fails only when the
  constructor throws, and with no token it does exactly what it does with the token
  \<^verbatim>\<open>null\<close>: the missing token is turned into text, never rejected.
\<close>

theorem C10_null_token_stringified:
  "(token s = None \<longrightarrow>
      EventSource_throws p (API_BASE_URL p @ endpoint @ str ''?token=null'') = None \<longrightarrow>
      createEventSource p endpoint s =
        Inr (length (sources s),
             s\<lparr>sources := sources s @
                  [\<lparr>url = API_BASE_URL p @ endpoint @ str ''?token=null'',
                    readyState = CONNECTING\<rparr>]\<rparr>))
   \<and> (token s = None \<longrightarrow>
      EventSource_throws p (API_BASE_URL p @ str ''/streaming/metrics'' @ str ''?token=null'') = None \<longrightarrow>
      connectSSE p now s =
        s\<lparr>sources := sources s @
             [\<lparr>url = API_BASE_URL p @ str ''/streaming/metrics'' @ str ''?token=null'',
               readyState = CONNECTING\<rparr>],
          eventSource := Some (length (sources s))\<rparr>)
   \<and> ((\<exists>msg. createEventSource p endpoint s = Inl msg) \<longleftrightarrow>
        EventSource_throws p (event_source_url p endpoint s) \<noteq> None)
   \<and> map_sum id (\<lambda>r. (fst r, sources (snd r))) (createEventSource p endpoint (s\<lparr>token := None\<rparr>))
       = map_sum id (\<lambda>r. (fst r, sources (snd r)))
           (createEventSource p endpoint (s\<lparr>token := Some (str ''null'')\<rparr>))"
proof -
  have 1: "token s = None \<longrightarrow>
      EventSource_throws p (API_BASE_URL p @ endpoint @ str ''?token=null'') = None \<longrightarrow>
      createEventSource p endpoint s =
        Inr (length (sources s),
             s\<lparr>sources := sources s @
                  [\<lparr>url = API_BASE_URL p @ endpoint @ str ''?token=null'',
                    readyState = CONNECTING\<rparr>]\<rparr>)"
    by (simp add: createEventSource_url event_source_url_no_token)
  have 2: "token s = None \<longrightarrow>
      EventSource_throws p (API_BASE_URL p @ str ''/streaming/metrics'' @ str ''?token=null'') = None \<longrightarrow>
      connectSSE p now s =
        s\<lparr>sources := sources s @
             [\<lparr>url = API_BASE_URL p @ str ''/streaming/metrics'' @ str ''?token=null'',
               readyState = CONNECTING\<rparr>],
          eventSource := Some (length (sources s))\<rparr>"
    using connectSSE_ok [of p s now] by (simp add: event_source_url_no_token)
  have 3: "(\<exists>msg. createEventSource p endpoint s = Inl msg) \<longleftrightarrow>
        EventSource_throws p (event_source_url p endpoint s) \<noteq> None"
    by (auto simp: createEventSource_url split: option.splits)
  have u: "event_source_url p endpoint (s\<lparr>token := None\<rparr>)
           = event_source_url p endpoint (s\<lparr>token := Some (str ''null'')\<rparr>)"
    by (simp add: event_source_url_def getToken_def)
  have 4: "map_sum id (\<lambda>r. (fst r, sources (snd r))) (createEventSource p endpoint (s\<lparr>token := None\<rparr>))
       = map_sum id (\<lambda>r. (fst r, sources (snd r)))
           (createEventSource p endpoint (s\<lparr>token := Some (str ''null'')\<rparr>))"
    by (simp add: createEventSource_url u split: option.splits)
  show ?thesis using 1 2 3 4 by blast
qed

text \<open>
  On the fresh page with no token and the default base URL, the first transport has the
  URL \<^verbatim>\<open>http://localhost:8000/api/v1/streaming/metrics?token=null\<close>.
\<close>

theorem C10_witness:
  "token (init None) = None
   \<and> createEventSource default_platform (str ''/streaming/metrics'') (init None) =
       Inr (0, (init None)\<lparr>sources :=
                 [\<lparr>url = str ''http://localhost:8000/api/v1/streaming/metrics?token=null'',
                   readyState = CONNECTING\<rparr>]\<rparr>)"
proof -
  have t: "token (init None) = None" by (simp add: init_def)
  have e: "EventSource_throws default_platform
             (API_BASE_URL default_platform @ str ''/streaming/metrics'' @ str ''?token=null'') = None"
    by (simp add: default_platform_def)
  have u: "API_BASE_URL default_platform @ str ''/streaming/metrics'' @ str ''?token=null''
           = str ''http://localhost:8000/api/v1/streaming/metrics?token=null''"
    by (simp add: API_BASE_URL_def default_platform_def str_def)
  have l: "sources (init None) = []" by (simp add: init_def)
  from C10_null_token_stringified [of "init None" default_platform "str ''/streaming/metrics''"] t e
  have "createEventSource default_platform (str ''/streaming/metrics'') (init None) =
        Inr (length (sources (init None)),
             (init None)\<lparr>sources := sources (init None) @
                  [\<lparr>url = API_BASE_URL default_platform @ str ''/streaming/metrics'' @ str ''?token=null'',
                    readyState = CONNECTING\<rparr>]\<rparr>)"
    by blast
  then show ?thesis using t by (simp add: u l)
qed

lemma connectSSE_twice_url:
  "EventSource_throws p (event_source_url p (str ''/streaming/metrics'') s) = None \<Longrightarrow>
   EventSource_throws p
     (event_source_url p (str ''/streaming/metrics'') (connectSSE p now s)) = None"
proof -
  assume ok: "EventSource_throws p (event_source_url p (str ''/streaming/metrics'') s) = None"
  have "token (connectSSE p now s) = token s"
    by (simp add: connectSSE_ok [OF ok])
  then have "event_source_url p (str ''/streaming/metrics'') (connectSSE p now s)
             = event_source_url p (str ''/streaming/metrics'') s"
    by (rule event_source_url_token_cong)
  then show ?thesis using ok by simp
qed

text \<open>
  C3, as the code has it. \<^verbatim>\<open>connectSSE\<close> has no guard: whenever the constructor
  accepts the URL, a call adds a new transport in state CONNECTING and makes it the
  handle, in every state, also while a transport is opening or open; it leaves the log,
  the stats, the flag, the timers and the transports it finds as they are. Two calls in
  succession leave two more live transports and the handle on the second. The page
  offers the Connect button only while \<^verbatim>\<open>connected\<close> is false.
\<close>

theorem C3_connectSSE_opens_new_transport:
  assumes ok: "EventSource_throws p (event_source_url p (str ''/streaming/metrics'') s) = None"
  shows "sources (connectSSE p now s)
           = sources s @ [\<lparr>url = event_source_url p (str ''/streaming/metrics'') s,
                           readyState = CONNECTING\<rparr>]
    \<and> eventSource (connectSSE p now s) = Some (length (sources s))
    \<and> live (connectSSE p now s) = live s @ [length (sources s)]
    \<and> connected (connectSSE p now s) = connected s
    \<and> metrics (connectSSE p now s) = metrics s
    \<and> stats (connectSSE p now s) = stats s
    \<and> timers (connectSSE p now s) = timers s
    \<and> live (connectSSE p now' (connectSSE p now s))
        = live s @ [length (sources s), Suc (length (sources s))]
    \<and> eventSource (connectSSE p now' (connectSSE p now s)) = Some (Suc (length (sources s)))
    \<and> step p now ClickConnect s = (if connected s then None else Some (connectSSE p now s))"
proof -
  note c = connectSSE_ok [OF ok, of now]
  have 1: "sources (connectSSE p now s)
           = sources s @ [\<lparr>url = event_source_url p (str ''/streaming/metrics'') s,
                           readyState = CONNECTING\<rparr>]"
    by (simp add: c)
  have 2: "eventSource (connectSSE p now s) = Some (length (sources s))"
    by (simp add: c)
  have 3: "live (connectSSE p now s) = live s @ [length (sources s)]"
    by (rule live_connectSSE [OF ok])
  have 4: "connected (connectSSE p now s) = connected s"
    "metrics (connectSSE p now s) = metrics s"
    "stats (connectSSE p now s) = stats s"
    "timers (connectSSE p now s) = timers s"
    by (simp_all add: c)
  note ok' = connectSSE_twice_url [OF ok, of now]
  have 5: "live (connectSSE p now' (connectSSE p now s))
        = live s @ [length (sources s), Suc (length (sources s))]"
    using live_connectSSE [OF ok', of now'] by (simp add: 3 1)
  have 6: "eventSource (connectSSE p now' (connectSSE p now s)) = Some (Suc (length (sources s)))"
    using connectSSE_ok [OF ok', of now'] by (simp add: 1)
  have 7: "step p now ClickConnect s = (if connected s then None else Some (connectSSE p now s))"
    by (simp add: step_def)
  show ?thesis by (intro conjI 1 2 3 4 5 6 7)
qed

text \<open>
  The claim C3 as stated fails: a click on Connect while the first transport is still
  opening leaves two live transports, 0 and 1.
\<close>

theorem C3_counterexample:
  "map_option (\<lambda>s. (live s, eventSource s)) (run default_platform double_connect (init None))
     = Some ([0, 1], Some 1)"
  by code_simp

text \<open>
  While connected, a call of \<^verbatim>\<open>connectSSE\<close> (as a pending timer makes it) adds a
  second live transport, and a further call a third.
\<close>

theorem C3_witness:
  "EventSource_throws default_platform
     (event_source_url default_platform (str ''/streaming/metrics'') connected_state) = None
   \<and> live connected_state = [0]
   \<and> live (connectSSE default_platform clock connected_state) = [0, 1]
   \<and> eventSource (connectSSE default_platform clock connected_state) = Some 1
   \<and> live (connectSSE default_platform clock (connectSSE default_platform clock connected_state))
       = [0, 1, 2]"
proof -
  have ok: "EventSource_throws default_platform
     (event_source_url default_platform (str ''/streaming/metrics'') connected_state) = None"
    by (simp add: default_platform_def)
  have l: "live connected_state = [0]"
    by (simp add: live_def connected_state_source)
  have n: "length (sources connected_state) = 1"
    by (simp add: connected_state_source)
  note t = C3_connectSSE_opens_new_transport [OF ok, of clock clock]
  from t have a: "live (connectSSE default_platform clock connected_state)
                  = live connected_state @ [length (sources connected_state)]"
    by (elim conjE)
  from t have b: "eventSource (connectSSE default_platform clock connected_state)
                  = Some (length (sources connected_state))"
    by (elim conjE)
  from t have c: "live (connectSSE default_platform clock
                          (connectSSE default_platform clock connected_state))
                  = live connected_state
                    @ [length (sources connected_state), Suc (length (sources connected_state))]"
    by (elim conjE)
  have a': "live (connectSSE default_platform clock connected_state) = [0, 1]"
    by (simp only: a l n) simp
  have b': "eventSource (connectSSE default_platform clock connected_state) = Some 1"
    by (simp only: b n)
  have c': "live (connectSSE default_platform clock
                          (connectSSE default_platform clock connected_state)) = [0, 1, 2]"
    by (simp only: c l n) simp
  from ok l a' b' c' show ?thesis by (intro conjI)
qed

section \<open>Transport errors and reconnection\<close>


lemma live_subset: "j \<in> set (live s) \<Longrightarrow> j < length (sources s) \<and> readyState (sources s ! j) \<noteq> CLOSED"
  by (simp add: live_def)









section \<open>Disconnecting\<close>












section \<open>Sessions\<close>















section \<open>Transport errors in a session\<close>











end
